theory Spec2Isabelle
  imports Complex_Main "HOL-Library.Multiset"
begin

section \<open>Data model\<close>

text \<open>
  A cell of the loaded table is either missing (pandas' NaN, an empty CSV field) or a value,
  kept as the text that Python's \<^verbatim>\<open>str\<close> gives for it. Everything the evaluator does with
  a cell goes through that text: the comparison with the marker \<^verbatim>\<open>'*'\<close>, the search for
  \<^verbatim>\<open>'**'\<close> in \<^verbatim>\<open>str(val)\<close> and the key built from \<^verbatim>\<open>row.values.astype(str)\<close>.
\<close>

datatype cell = Str string | NaN

text \<open>The exceptions the evaluator's own operations can raise.\<close>

datatype error = KeyError | ZeroDivisionError

text \<open>
  A DataFrame: the column labels in order and the records in order, each record holding one
  cell for each column. Python floats are taken as exact rationals throughout: the metrics
  are the quotients the source writes, without rounding.
\<close>

record dataframe =
  columns :: "string list"
  rows :: "cell list list"

text \<open>
  What pandas guarantees of a frame read from a CSV file: the labels are pairwise distinct
  (duplicates are renamed on loading) and every record has one cell for each column.
\<close>

definition wf_dataframe :: "dataframe \<Rightarrow> bool" where
  "wf_dataframe df \<longleftrightarrow>
     distinct (columns df) \<and> list_all (\<lambda>r. length r = length (columns df)) (rows df)"

fun py_str :: "cell \<Rightarrow> string" where
  "py_str (Str s) = s"
| "py_str NaN = ''nan''"

text \<open>\<^verbatim>\<open>sep.join(parts)\<close>.\<close>

fun join :: "string \<Rightarrow> string list \<Rightarrow> string" where
  "join sep [] = []"
| "join sep [x] = x"
| "join sep (x # y # ys) = x @ sep @ join sep (y # ys)"

text \<open>\<^verbatim>\<open>sub in s\<close> on strings.\<close>

fun starts_with :: "string \<Rightarrow> string \<Rightarrow> bool" where
  "starts_with [] s = True"
| "starts_with (c # cs) [] = False"
| "starts_with (c # cs) (d # ds) = (c = d \<and> starts_with cs ds)"

fun contains :: "string \<Rightarrow> string \<Rightarrow> bool" where
  "contains sub [] = (sub = [])"
| "contains sub (c # s) = (starts_with sub (c # s) \<or> contains sub s)"

text \<open>The position of a label among the columns; a label that is absent has none.\<close>

fun get_loc :: "string \<Rightarrow> string list \<Rightarrow> nat option" where
  "get_loc c [] = None"
| "get_loc c (x # xs) = (if c = x then Some 0 else map_option Suc (get_loc c xs))"

text \<open>\<^verbatim>\<open>df[col]\<close>: the column as a series, or KeyError.\<close>

definition getitem :: "dataframe \<Rightarrow> string \<Rightarrow> error + cell list" where
  "getitem df col =
     (case get_loc col (columns df) of
        None \<Rightarrow> Inl KeyError
      | Some i \<Rightarrow> Inr (map (\<lambda>r. r ! i) (rows df)))"

fun get_locs :: "string list \<Rightarrow> string list \<Rightarrow> error + nat list" where
  "get_locs [] cols = Inr []"
| "get_locs (q # qs) cols =
     (case get_loc q cols of
        None \<Rightarrow> Inl KeyError
      | Some i \<Rightarrow> (case get_locs qs cols of Inl e \<Rightarrow> Inl e | Inr locs \<Rightarrow> Inr (i # locs)))"

text \<open>\<^verbatim>\<open>df[quasi_identifiers]\<close>: the records restricted to the listed columns, or KeyError.\<close>

definition getitem_list :: "dataframe \<Rightarrow> string list \<Rightarrow> error + cell list list" where
  "getitem_list df cols =
     (case get_locs cols (columns df) of
        Inl e \<Rightarrow> Inl e
      | Inr locs \<Rightarrow> Inr (map (\<lambda>r. map (\<lambda>i. r ! i) locs) (rows df)))"

section \<open>Dictionaries\<close>

text \<open>
  Python dictionaries keep their keys in insertion order, and the evaluator reads them in that
  order (\<^verbatim>\<open>values()\<close>), so a dictionary is an association list without repeated keys.
  \<^verbatim>\<open>d[k] = v\<close> replaces the value of a key that is present, in place, and appends a new key.
\<close>

fun dict_set :: "'k \<Rightarrow> 'v \<Rightarrow> ('k \<times> 'v) list \<Rightarrow> ('k \<times> 'v) list" where
  "dict_set k v [] = [(k, v)]"
| "dict_set k v ((k', v') # d) = (if k = k' then (k', v) # d else (k', v') # dict_set k v d)"

text \<open>One step of \<^verbatim>\<open>Counter(iterable)\<close>: the count of the element goes up by one.\<close>

fun counter_add :: "'k \<Rightarrow> ('k \<times> int) list \<Rightarrow> ('k \<times> int) list" where
  "counter_add k [] = [(k, 1)]"
| "counter_add k ((k', n) # d) = (if k = k' then (k', n + 1) # d else (k', n) # counter_add k d)"

definition Counter :: "'k list \<Rightarrow> ('k \<times> int) list" where
  "Counter xs = fold counter_add xs []"

text \<open>\<^verbatim>\<open>groups[key].append(i)\<close> on a \<^verbatim>\<open>defaultdict(list)\<close>.\<close>

fun group_append :: "'k \<Rightarrow> nat \<Rightarrow> ('k \<times> nat list) list \<Rightarrow> ('k \<times> nat list) list" where
  "group_append k i [] = [(k, [i])]"
| "group_append k i ((k', members) # d) =
     (if k = k' then (k', members @ [i]) # d else (k', members) # group_append k i d)"

text \<open>\<^verbatim>\<open>for i, key in enumerate(ec_keys): ec_groups[key].append(i)\<close>, from index \<open>i\<close> on.\<close>

fun group_loop :: "nat \<Rightarrow> 'k list \<Rightarrow> ('k \<times> nat list) list \<Rightarrow> ('k \<times> nat list) list" where
  "group_loop i [] ec_groups = ec_groups"
| "group_loop i (key # keys) ec_groups = group_loop (Suc i) keys (group_append key i ec_groups)"

section \<open>Quasi-identifiers and equivalence classes\<close>

fun identify_loop :: "dataframe \<Rightarrow> string list \<Rightarrow> string list \<Rightarrow> error + string list" where
  "identify_loop df [] quasi_ids = Inr quasi_ids"
| "identify_loop df (col # cols) quasi_ids =
     (case getitem df col of
        Inl e \<Rightarrow> Inl e
      | Inr series \<Rightarrow>
          identify_loop df cols
            (if \<not> list_all (\<lambda>v. v = Str ''*'') series then quasi_ids @ [col] else quasi_ids))"

definition identify_quasi_identifiers :: "dataframe \<Rightarrow> error + string list" where
  "identify_quasi_identifiers df = identify_loop df (columns df) []"

text \<open>The composite key of one record: \<^verbatim>\<open>'_'.join(row.values.astype(str))\<close>.\<close>

definition ec_key :: "cell list \<Rightarrow> string" where
  "ec_key row = join ''_'' (map py_str row)"

definition compute_equivalence_classes ::
  "dataframe \<Rightarrow> string list \<Rightarrow> error + ((string \<times> int) list \<times> (string \<times> nat list) list)" where
  "compute_equivalence_classes df quasi_identifiers =
     (case getitem_list df quasi_identifiers of
        Inl e \<Rightarrow> Inl e
      | Inr sub \<Rightarrow>
          (let ec_keys = map ec_key sub
           in Inr (Counter ec_keys, group_loop 0 ec_keys [])))"

section \<open>Metrics\<close>

text \<open>
  Sequencing of computations that may raise: the first exception ends the computation.
\<close>

fun bind_result :: "error + 'a \<Rightarrow> ('a \<Rightarrow> error + 'b) \<Rightarrow> error + 'b" where
  "bind_result (Inl e) f = Inl e"
| "bind_result (Inr x) f = f x"

text \<open>Python's \<^verbatim>\<open>a / b\<close>: a zero divisor raises ZeroDivisionError.\<close>

definition truediv :: "rat \<Rightarrow> rat \<Rightarrow> error + rat" where
  "truediv a b = (if b = 0 then Inl ZeroDivisionError else Inr (a / b))"

record risk_metrics =
  max_risk :: rat
  avg_risk :: rat
  risks :: "rat list"

text \<open>\<^verbatim>\<open>for ec_size in ec_counts.values(): risks.append(1.0 / ec_size)\<close>.\<close>

fun risks_loop :: "int list \<Rightarrow> rat list \<Rightarrow> error + rat list" where
  "risks_loop [] rs = Inr rs"
| "risks_loop (ec_size # sizes) rs =
     (case truediv 1 (of_int ec_size) of
        Inl e \<Rightarrow> Inl e
      | Inr risk \<Rightarrow> risks_loop sizes (rs @ [risk]))"

text \<open>
  \<^verbatim>\<open>max\<close> and \<^verbatim>\<open>min\<close> of a sequence with first element \<open>x\<close>: the first extremal element is
  kept. Both callers guard the empty sequence, on which Python would raise.
\<close>

definition py_max :: "'a::linorder \<Rightarrow> 'a list \<Rightarrow> 'a" where
  "py_max x xs = fold (\<lambda>y m. if m < y then y else m) xs x"

definition py_min :: "'a::linorder \<Rightarrow> 'a list \<Rightarrow> 'a" where
  "py_min x xs = fold (\<lambda>y m. if y < m then y else m) xs x"

definition calculate_reidentification_risks :: "('k \<times> int) list \<Rightarrow> error + risk_metrics" where
  "calculate_reidentification_risks ec_counts =
     bind_result (risks_loop (map snd ec_counts) []) (\<lambda>rs.
     bind_result (if rs \<noteq> [] then truediv (sum_list rs) (of_nat (length rs)) else Inr 0) (\<lambda>avg.
       Inr \<lparr> max_risk = (case rs of [] \<Rightarrow> 0 | r # rest \<Rightarrow> py_max r rest),
             avg_risk = avg,
             risks = rs \<rparr>))"

record ec_metrics =
  num_equivalence_classes :: nat
  min_ec_size :: int
  max_ec_size :: int
  avg_ec_size :: rat
  unique_records :: nat
  unique_records_percentage :: rat
  ec_size_distribution :: "(int \<times> int) list"

definition calculate_equivalence_class_metrics ::
  "('k \<times> int) list \<Rightarrow> int \<Rightarrow> error + ec_metrics" where
  "calculate_equivalence_class_metrics ec_counts total_records =
     (let ec_sizes = map snd ec_counts;
          unique = length (filter (\<lambda>size. size = 1) ec_sizes)
      in bind_result
           (if ec_sizes \<noteq> []
            then truediv (of_int (sum_list ec_sizes)) (of_nat (length ec_sizes))
            else Inr 0) (\<lambda>avg.
         bind_result
           (if total_records > 0
            then bind_result (truediv (of_nat unique) (of_int total_records))
                   (\<lambda>q. Inr (q * 100))
            else Inr 0) (\<lambda>pct.
           Inr \<lparr> num_equivalence_classes = length ec_sizes,
                 min_ec_size = (case ec_sizes of [] \<Rightarrow> 0 | s # rest \<Rightarrow> py_min s rest),
                 max_ec_size = (case ec_sizes of [] \<Rightarrow> 0 | s # rest \<Rightarrow> py_max s rest),
                 avg_ec_size = avg,
                 unique_records = unique,
                 unique_records_percentage = pct,
                 ec_size_distribution = Counter ec_sizes \<rparr>)))"

record col_loss =
  distinct_values :: nat
  asterisk_percentage :: rat
  generalized_percentage :: rat
  total_loss_percentage :: rat

text \<open>
  The values of the dictionary that \<^verbatim>\<open>calculate_information_loss\<close> returns: a dictionary of
  four numbers under a column's label, a single number under \<^verbatim>\<open>'average'\<close>.
\<close>

datatype loss_entry = ColumnLoss col_loss | AverageLoss rat

text \<open>\<^verbatim>\<open>Series.nunique()\<close>: the number of distinct values, missing ones left out.\<close>

definition nunique :: "cell list \<Rightarrow> nat" where
  "nunique series = length (remdups (filter (\<lambda>v. v \<noteq> NaN) series))"

text \<open>The inner loop over a column; the result is (generalized_count, asterisk_count).\<close>

fun count_markers :: "cell list \<Rightarrow> nat \<Rightarrow> nat \<Rightarrow> nat \<times> nat" where
  "count_markers [] generalized_count asterisk_count = (generalized_count, asterisk_count)"
| "count_markers (val # vals) generalized_count asterisk_count =
     (if val = Str ''*'' then count_markers vals generalized_count (asterisk_count + 1)
      else if contains ''**'' (py_str val) then count_markers vals (generalized_count + 1) asterisk_count
      else count_markers vals generalized_count asterisk_count)"

text \<open>\<^verbatim>\<open>(n / total_records) * 100 if total_records > 0 else 0\<close>.\<close>

definition percentage :: "nat \<Rightarrow> nat \<Rightarrow> error + rat" where
  "percentage n total_records =
     (if total_records > 0
      then bind_result (truediv (of_nat n) (of_nat total_records)) (\<lambda>q. Inr (q * 100))
      else Inr 0)"

text \<open>The body of the loop over the quasi-identifiers: the entry of one column.\<close>

definition column_loss :: "nat \<Rightarrow> cell list \<Rightarrow> error + col_loss" where
  "column_loss total_records series =
     (let counts = count_markers series 0 0;
          generalized_count = fst counts;
          asterisk_count = snd counts
      in bind_result (percentage asterisk_count total_records) (\<lambda>ap.
         bind_result (percentage generalized_count total_records) (\<lambda>gp.
         bind_result (percentage (asterisk_count + generalized_count) total_records) (\<lambda>tp.
           Inr \<lparr> distinct_values = nunique series,
                 asterisk_percentage = ap,
                 generalized_percentage = gp,
                 total_loss_percentage = tp \<rparr>))))"

fun info_loss_loop ::
  "dataframe \<Rightarrow> string list \<Rightarrow> (string \<times> col_loss) list \<Rightarrow> error + (string \<times> col_loss) list" where
  "info_loss_loop df [] info_loss = Inr info_loss"
| "info_loss_loop df (col # cols) info_loss =
     (case getitem df col of
        Inl e \<Rightarrow> Inl e
      | Inr series \<Rightarrow>
          (case column_loss (length (rows df)) series of
             Inl e \<Rightarrow> Inl e
           | Inr entry \<Rightarrow> info_loss_loop df cols (dict_set col entry info_loss)))"

definition calculate_information_loss ::
  "dataframe \<Rightarrow> string list \<Rightarrow> error + (string \<times> loss_entry) list" where
  "calculate_information_loss df quasi_identifiers =
     bind_result (info_loss_loop df quasi_identifiers []) (\<lambda>info_loss.
     bind_result
       (if info_loss \<noteq> []
        then truediv (sum_list (map (\<lambda>kv. total_loss_percentage (snd kv)) info_loss))
               (of_nat (length info_loss))
        else Inr 0) (\<lambda>avg_loss.
       Inr (dict_set ''average'' (AverageLoss avg_loss)
              (map (\<lambda>kv. (fst kv, ColumnLoss (snd kv))) info_loss))))"

text \<open>
  \<^verbatim>\<open>df.size\<close> is records times columns; \<^verbatim>\<open>(df == '*').sum().sum()\<close> counts the marker in each
  column and adds the counts up.
\<close>

definition suppressed_cells :: "dataframe \<Rightarrow> nat" where
  "suppressed_cells df =
     sum_list (map (\<lambda>i. length (filter (\<lambda>r. r ! i = Str ''*'') (rows df)))
                 [0 ..< length (columns df)])"

definition calculate_suppression_rate :: "dataframe \<Rightarrow> error + rat" where
  "calculate_suppression_rate df =
     (let total_cells = length (rows df) * length (columns df)
      in if total_cells > 0
         then bind_result (truediv (of_nat (suppressed_cells df)) (of_nat total_cells))
                (\<lambda>q. Inr (q * 100))
         else Inr 0)"

definition discernibility_metric :: "('k \<times> nat list) list \<Rightarrow> int \<Rightarrow> nat" where
  "discernibility_metric ec_groups total_records =
     fold (\<lambda>ec dm. dm + (length ec) ^ 2) (map snd ec_groups) 0"

section \<open>The evaluation\<close>

text \<open>
  The dictionary \<^verbatim>\<open>results\<close>. The threshold \<open>k\<close> is the number the caller passes, an integer
  or a float, and Python compares an integer with it by value; nothing in the evaluation
  inspects \<open>k\<close> before that comparison.
\<close>

record results =
  k_value :: rat
  quasi_identifiers :: "string list"
  num_records :: nat
  satisfies_k_anonymity :: bool
  risks_report :: risk_metrics
  equivalence_class_metrics :: ec_metrics
  information_loss :: "(string \<times> loss_entry) list"
  suppression_rate :: rat
  discernibility :: nat

definition evaluate_k_anonymity :: "dataframe \<Rightarrow> rat \<Rightarrow> error + results" where
  "evaluate_k_anonymity df k =
     bind_result (identify_quasi_identifiers df) (\<lambda>quasi_ids.
     bind_result (compute_equivalence_classes df quasi_ids) (\<lambda>ec.
     bind_result (calculate_reidentification_risks (fst ec)) (\<lambda>rm.
     bind_result (calculate_equivalence_class_metrics (fst ec) (int (length (rows df)))) (\<lambda>ecm.
     bind_result (calculate_information_loss df quasi_ids) (\<lambda>info_loss.
     bind_result (calculate_suppression_rate df) (\<lambda>rate.
       Inr \<lparr> k_value = k,
             quasi_identifiers = quasi_ids,
             num_records = length (rows df),
             satisfies_k_anonymity = (k \<le> of_int (min_ec_size ecm)),
             risks_report = rm,
             equivalence_class_metrics = ecm,
             information_loss = info_loss,
             suppression_rate = rate,
             discernibility = discernibility_metric (snd ec) (int (length (rows df))) \<rparr>))))))"

section \<open>Example tables\<close>

text \<open>Five records with the quasi-identifier values A, A, B, B, B and a suppressed column.\<close>

definition example_five :: dataframe where
  "example_five =
     \<lparr> columns = [''qi'', ''s''],
       rows = [[Str ''A'', Str ''*''], [Str ''A'', Str ''*''], [Str ''B'', Str ''*''],
               [Str ''B'', Str ''*''], [Str ''B'', Str ''*'']] \<rparr>"

text \<open>Two records whose values differ in both columns and contain the separator.\<close>

definition example_collision :: dataframe where
  "example_collision =
     \<lparr> columns = [''city'', ''zip''],
       rows = [[Str ''a_b'', Str ''c''], [Str ''a'', Str ''b_c'']] \<rparr>"

text \<open>A table with a column labelled \<^verbatim>\<open>average\<close>.\<close>

definition example_average :: dataframe where
  "example_average =
     \<lparr> columns = [''average'', ''zip''],
       rows = [[Str ''*'', Str ''1**''], [Str ''x'', Str ''12'']] \<rparr>"

text \<open>A table with a header and no record.\<close>

definition example_empty :: dataframe where
  "example_empty = \<lparr> columns = [''qi'', ''s''], rows = [] \<rparr>"

text \<open>A single suppressed cell.\<close>

definition example_cell :: dataframe where
  "example_cell = \<lparr> columns = [''s''], rows = [[Str ''*'']] \<rparr>"

section \<open>Auxiliary facts\<close>

subsection \<open>Column access and the classifier's loop\<close>

lemma get_loc_None: "get_loc c xs = None \<longleftrightarrow> c \<notin> set xs"
  by (induction xs) auto

lemma get_loc_Some: "get_loc c xs = Some i \<Longrightarrow> i < length xs \<and> xs ! i = c"
  by (induction xs arbitrary: i) (auto split: if_splits)

lemma get_loc_nth: "distinct xs \<Longrightarrow> i < length xs \<Longrightarrow> get_loc (xs ! i) xs = Some i"
proof (induction xs arbitrary: i)
  case Nil
  then show ?case by simp
next
  case (Cons x xs)
  show ?case
  proof (cases i)
    case 0
    then show ?thesis by simp
  next
    case (Suc j)
    with Cons.prems have "xs ! j \<noteq> x" "get_loc (xs ! j) xs = Some j"
      using Cons.IH by auto
    with Suc show ?thesis by simp
  qed
qed

lemma getitem_present:
  "c \<in> set (columns df) \<Longrightarrow> getitem df c = Inr (map (\<lambda>r. r ! the (get_loc c (columns df))) (rows df))"
  by (cases "get_loc c (columns df)") (auto simp: getitem_def get_loc_None)

lemma identify_loop_filter:
  "set cols \<subseteq> set (columns df) \<Longrightarrow>
   identify_loop df cols acc =
     Inr (acc @ filter (\<lambda>c. \<exists>r \<in> set (rows df). r ! the (get_loc c (columns df)) \<noteq> Str ''*'') cols)"
proof (induction cols arbitrary: acc)
  case Nil
  then show ?case by simp
next
  case (Cons c cols)
  then have c: "c \<in> set (columns df)" and rest: "set cols \<subseteq> set (columns df)"
    by auto
  have all: "list_all (\<lambda>v. v = Str ''*'') (map (\<lambda>r. r ! the (get_loc c (columns df))) (rows df))
             \<longleftrightarrow> \<not> (\<exists>r \<in> set (rows df). r ! the (get_loc c (columns df)) \<noteq> Str ''*'')"
    by (auto simp: list_all_iff)
  show ?case
    by (simp add: getitem_present [OF c] all Cons.IH [OF rest])
qed

lemma filter_by_position:
  "filter P xs = map (\<lambda>i. xs ! i) (filter (\<lambda>i. P (xs ! i)) [0 ..< length xs])"
proof -
  have "filter P xs = filter P (map (\<lambda>i. xs ! i) [0 ..< length xs])"
    by (simp add: map_nth)
  also have "\<dots> = map (\<lambda>i. xs ! i) (filter (\<lambda>i. P (xs ! i)) [0 ..< length xs])"
    by (simp add: filter_map comp_def)
  finally show ?thesis .
qed

subsection \<open>Risks, maxima and minima\<close>

lemma risks_loop_map:
  "0 \<notin> set sizes \<Longrightarrow> risks_loop sizes rs = Inr (rs @ map (\<lambda>s. 1 / of_int s) sizes)"
  by (induction sizes arbitrary: rs) (auto simp: truediv_def)

lemma risks_loop_zero:
  "0 \<in> set sizes \<Longrightarrow> risks_loop sizes rs = Inl ZeroDivisionError"
  by (induction sizes arbitrary: rs) (auto simp: truediv_def)

lemma py_max_Max: "py_max x xs = Max (set (x # xs))"
proof -
  have "(\<lambda>y m. if m < y then y else m) = (max :: 'a \<Rightarrow> 'a \<Rightarrow> 'a)"
    by (intro ext) (auto simp: max_def)
  then show ?thesis
    by (simp only: py_max_def Max.set_eq_fold)
qed

lemma py_min_Min: "py_min x xs = Min (set (x # xs))"
proof -
  have "(\<lambda>y m. if y < m then y else m) = (min :: 'a \<Rightarrow> 'a \<Rightarrow> 'a)"
    by (intro ext) (auto simp: min_def)
  then show ?thesis
    by (simp only: py_min_def Min.set_eq_fold)
qed

subsection \<open>Counting and grouping\<close>

lemma counter_add_sum: "sum_list (map snd (counter_add k d)) = sum_list (map snd d) + 1"
  by (induction d) auto

lemma fold_counter_add_sum:
  "sum_list (map snd (fold counter_add ks d)) = sum_list (map snd d) + int (length ks)"
  by (induction ks arbitrary: d) (auto simp: counter_add_sum)

lemma counter_add_positive:
  "list_all (\<lambda>p. 1 \<le> snd p) d \<Longrightarrow> list_all (\<lambda>p. 1 \<le> snd p) (counter_add k d)"
  by (induction d) auto

lemma fold_counter_add_positive:
  "list_all (\<lambda>p. 1 \<le> snd p) d \<Longrightarrow> list_all (\<lambda>p. 1 \<le> snd p) (fold counter_add ks d)"
  by (induction ks arbitrary: d) (auto simp: counter_add_positive)

lemma Counter_positive: "list_all (\<lambda>p. 1 \<le> snd p) (Counter ks)"
  by (simp add: Counter_def fold_counter_add_positive)

lemma group_append_sizes:
  "map (\<lambda>p. (fst p, int (length (snd p)))) (group_append k i g) =
   counter_add k (map (\<lambda>p. (fst p, int (length (snd p)))) g)"
  by (induction g) auto

lemma group_loop_sizes:
  "map (\<lambda>p. (fst p, int (length (snd p)))) (group_loop i ks g) =
   fold counter_add ks (map (\<lambda>p. (fst p, int (length (snd p)))) g)"
  by (induction ks arbitrary: i g) (auto simp: group_append_sizes)

lemma group_loop_Counter:
  "map (\<lambda>p. (fst p, int (length (snd p)))) (group_loop 0 ks []) = Counter ks"
  by (simp add: group_loop_sizes Counter_def)

lemma group_append_mset:
  "mset (concat (map snd (group_append k i g))) = add_mset i (mset (concat (map snd g)))"
  by (induction g) auto

lemma group_loop_mset:
  "mset (concat (map snd (group_loop i ks g))) =
   mset (concat (map snd g)) + mset [i ..< i + length ks]"
proof (induction ks arbitrary: i g)
  case Nil
  then show ?case by simp
next
  case (Cons k ks)
  have "[i ..< i + length (k # ks)] = i # [Suc i ..< Suc i + length ks]"
    by (simp add: upt_rec)
  then show ?case
    by (simp add: Cons.IH group_append_mset)
qed

lemma group_loop_snoc:
  "group_loop i (ks @ [k]) g = group_append k (i + length ks) (group_loop i ks g)"
  by (induction ks arbitrary: i g) auto

lemma group_append_keys:
  "map fst (group_append k i g) = (if k \<in> set (map fst g) then map fst g else map fst g @ [k])"
  by (induction g) force+

lemma group_append_map_of:
  "map_of (group_append k i g) =
   (map_of g)(k \<mapsto> (case map_of g k of None \<Rightarrow> [] | Some ms \<Rightarrow> ms) @ [i])"
  by (induction g) (auto simp: fun_eq_iff)

lemma group_loop_keys:
  "distinct (map fst (group_loop 0 ks [])) \<and> set (map fst (group_loop 0 ks [])) = set ks"
proof (induction ks rule: rev_induct)
  case Nil
  then show ?case by simp
next
  case (snoc k ks)
  then show ?case
    by (auto simp: group_loop_snoc group_append_keys)
qed

lemma filter_upt_snoc:
  "filter (\<lambda>j. (ks @ [k]) ! j = k') [0 ..< Suc (length ks)] =
   filter (\<lambda>j. ks ! j = k') [0 ..< length ks] @ (if k = k' then [length ks] else [])"
proof -
  have "filter (\<lambda>j. (ks @ [k]) ! j = k') [0 ..< length ks] =
        filter (\<lambda>j. ks ! j = k') [0 ..< length ks]"
    by (rule filter_cong) (auto simp: nth_append)
  then show ?thesis by simp
qed

lemma filter_upt_absent:
  "k \<notin> set ks \<Longrightarrow> filter (\<lambda>j. ks ! j = k) [0 ..< length ks] = []"
  by (auto simp: filter_empty_conv)

lemma group_loop_map_of:
  "map_of (group_loop 0 ks []) k =
   (if k \<in> set ks then Some (filter (\<lambda>j. ks ! j = k) [0 ..< length ks]) else None)"
proof (induction ks rule: rev_induct)
  case Nil
  then show ?case by simp
next
  case (snoc x xs)
  show ?case
  proof (cases "k = x")
    case True
    then show ?thesis
      using snoc.IH
      by (simp add: group_loop_snoc group_append_map_of filter_upt_snoc filter_upt_absent
               del: upt_Suc)
  next
    case False
    then show ?thesis
      using snoc.IH
      by (simp add: group_loop_snoc group_append_map_of filter_upt_snoc del: upt_Suc)
  qed
qed

lemma group_loop_members:
  assumes "(k, ms) \<in> set (group_loop 0 ks [])"
  shows "ms = filter (\<lambda>j. ks ! j = k) [0 ..< length ks]"
proof -
  have "distinct (map fst (group_loop 0 ks []))"
    by (simp add: group_loop_keys)
  with assms have "map_of (group_loop 0 ks []) k = Some ms"
    by simp
  then show ?thesis
    by (simp add: group_loop_map_of split: if_splits)
qed

lemma distinct_concat_unique:
  assumes "distinct (concat xss)" "j < length xss" "j' < length xss"
    "i \<in> set (xss ! j)" "i \<in> set (xss ! j')"
  shows "j = j'"
  using assms
proof (induction xss arbitrary: j j')
  case Nil
  then show ?case by simp
next
  case (Cons xs xss)
  show ?case
  proof (cases j; cases j')
    fix n assume "j = 0" "j' = Suc n"
    with Cons.prems show ?thesis by (auto dest: nth_mem)
  next
    fix n assume "j = Suc n" "j' = 0"
    with Cons.prems show ?thesis by (auto dest: nth_mem)
  next
    fix n m assume "j = Suc n" "j' = Suc m"
    with Cons.prems Cons.IH [of n m] show ?thesis by auto
  qed simp
qed

lemma partition_unique_class:
  assumes "mset (concat xss) = mset [0 ..< n]" "i < n"
  shows "\<exists>!j. j < length xss \<and> i \<in> set (xss ! j)"
proof -
  from assms(1) have d: "distinct (concat xss)"
    by (metis distinct_upt mset_eq_imp_distinct_iff)
  from assms(1) have "set (concat xss) = {0 ..< n}"
    by (metis mset_eq_setD set_upt)
  with assms(2) have "i \<in> set (concat xss)" by simp
  then obtain xs where "xs \<in> set xss" "i \<in> set xs" by auto
  then obtain j where j: "j < length xss" "i \<in> set (xss ! j)"
    by (auto simp: in_set_conv_nth)
  show ?thesis
  proof (rule ex1I [of _ j])
    show "j < length xss \<and> i \<in> set (xss ! j)" using j by simp
  next
    fix j' assume "j' < length xss \<and> i \<in> set (xss ! j')"
    with d j show "j' = j" by (auto dest: distinct_concat_unique)
  qed
qed

subsection \<open>The evaluation never raises\<close>

lemma get_locs_present:
  "set qs \<subseteq> set cols \<Longrightarrow> get_locs qs cols = Inr (map (\<lambda>q. the (get_loc q cols)) qs)"
proof (induction qs)
  case Nil
  then show ?case by simp
next
  case (Cons q qs)
  then obtain i where "get_loc q cols = Some i"
    by (cases "get_loc q cols") (auto simp: get_loc_None)
  with Cons show ?case by simp
qed

lemma compute_equivalence_classes_present:
  assumes "set qis \<subseteq> set (columns df)"
  shows "compute_equivalence_classes df qis =
           Inr (Counter (map (\<lambda>r. ec_key (map (\<lambda>q. r ! the (get_loc q (columns df))) qis)) (rows df)),
                group_loop 0 (map (\<lambda>r. ec_key (map (\<lambda>q. r ! the (get_loc q (columns df))) qis)) (rows df)) [])"
  by (simp add: compute_equivalence_classes_def getitem_list_def get_locs_present [OF assms]
        comp_def Let_def)

lemma identify_quasi_identifiers_subset:
  "\<exists>qis. identify_quasi_identifiers df = Inr qis \<and> set qis \<subseteq> set (columns df)"
  by (simp add: identify_quasi_identifiers_def identify_loop_filter)

lemma risks_of_Counter:
  "risks_loop (map snd (Counter ks)) [] = Inr (map (\<lambda>s. 1 / of_int s) (map snd (Counter ks)))"
proof -
  have "0 \<notin> set (map snd (Counter ks))"
    using Counter_positive [of ks] by (auto simp: list_all_iff)
  then show ?thesis
    by (simp add: risks_loop_map)
qed

lemma percentage_returns:
  "percentage n t = Inr (if t > 0 then of_nat n / of_nat t * 100 else 0)"
  by (simp add: percentage_def truediv_def)

lemma column_loss_returns:
  "column_loss t series =
     Inr \<lparr> distinct_values = nunique series,
           asterisk_percentage =
             (if t > 0 then of_nat (snd (count_markers series 0 0)) / of_nat t * 100 else 0),
           generalized_percentage =
             (if t > 0 then of_nat (fst (count_markers series 0 0)) / of_nat t * 100 else 0),
           total_loss_percentage =
             (if t > 0
              then of_nat (snd (count_markers series 0 0) + fst (count_markers series 0 0))
                     / of_nat t * 100
              else 0) \<rparr>"
  by (simp add: column_loss_def Let_def percentage_returns)

lemma info_loss_loop_present:
  "set cols \<subseteq> set (columns df) \<Longrightarrow>
   info_loss_loop df cols acc =
     Inr (fold (\<lambda>c. dict_set c (projr (column_loss (length (rows df))
                 (map (\<lambda>r. r ! the (get_loc c (columns df))) (rows df))))) cols acc)"
  by (induction cols arbitrary: acc) (auto simp: getitem_present column_loss_returns)

lemma average_returns:
  "(if xs \<noteq> [] then truediv s (of_nat (length xs)) else Inr 0) =
   Inr (if xs \<noteq> [] then s / of_nat (length xs) else 0)"
  by (simp add: truediv_def)

lemma calculate_information_loss_present:
  assumes "set qis \<subseteq> set (columns df)"
  shows "\<exists>m. calculate_information_loss df qis = Inr m"
  by (simp add: calculate_information_loss_def info_loss_loop_present [OF assms] average_returns)

lemma calculate_suppression_rate_returns:
  "calculate_suppression_rate df =
     Inr (if length (rows df) * length (columns df) > 0
          then of_nat (suppressed_cells df) / of_nat (length (rows df) * length (columns df)) * 100
          else 0)"
  by (simp add: calculate_suppression_rate_def truediv_def Let_def)

lemma calculate_equivalence_class_metrics_returns:
  "0 \<le> n \<Longrightarrow> \<exists>m. calculate_equivalence_class_metrics ec_counts n = Inr m \<and>
     min_ec_size m = (case map snd ec_counts of [] \<Rightarrow> 0 | s # rest \<Rightarrow> py_min s rest)"
  by (simp add: calculate_equivalence_class_metrics_def truediv_def Let_def)

lemma calculate_reidentification_risks_Counter:
  "\<exists>rm. calculate_reidentification_risks (Counter ks) = Inr rm"
  by (simp add: calculate_reidentification_risks_def risks_of_Counter average_returns)

lemma evaluate_k_anonymity_returns:
  "\<exists>r. evaluate_k_anonymity df k = Inr r"
proof -
  obtain qis where q: "identify_quasi_identifiers df = Inr qis" "set qis \<subseteq> set (columns df)"
    using identify_quasi_identifiers_subset by blast
  obtain rm where rm: "calculate_reidentification_risks
      (Counter (map (\<lambda>r. ec_key (map (\<lambda>q. r ! the (get_loc q (columns df))) qis)) (rows df))) = Inr rm"
    using calculate_reidentification_risks_Counter by blast
  obtain ecm where ecm: "calculate_equivalence_class_metrics
      (Counter (map (\<lambda>r. ec_key (map (\<lambda>q. r ! the (get_loc q (columns df))) qis)) (rows df)))
      (int (length (rows df))) = Inr ecm"
    using calculate_equivalence_class_metrics_returns [OF of_nat_0_le_iff] by blast
  obtain m where m: "calculate_information_loss df qis = Inr m"
    using calculate_information_loss_present [OF q(2)] by blast
  show ?thesis
    by (simp add: evaluate_k_anonymity_def q compute_equivalence_classes_present [OF q(2)]
          rm ecm m calculate_suppression_rate_returns)
qed

subsection \<open>Counting the marker\<close>

lemma sum_list_indicator:
  "sum_list (map (\<lambda>x. if x = v then 1 else 0) xs) = count_list xs v"
  by (induction xs) auto

lemma count_in_row:
  "sum_list (map (\<lambda>i. if r ! i = v then 1 else 0) [0 ..< length r]) = count_list r v"
proof -
  have "map (\<lambda>i. if r ! i = v then 1 else 0) [0 ..< length r] =
        map (\<lambda>x. if x = v then (1::nat) else 0) (map (\<lambda>i. r ! i) [0 ..< length r])"
    by simp
  then show ?thesis
    by (simp only: map_nth sum_list_indicator)
qed

lemma count_by_columns:
  "list_all (\<lambda>r. length r = n) rs \<Longrightarrow>
   sum_list (map (\<lambda>i. length (filter (\<lambda>r. r ! i = v) rs)) [0 ..< n]) = count_list (concat rs) v"
proof (induction rs)
  case Nil
  then show ?case by simp
next
  case (Cons r rs)
  then have len: "length r = n" and rest: "list_all (\<lambda>r. length r = n) rs"
    by auto
  have "sum_list (map (\<lambda>i. length (filter (\<lambda>r. r ! i = v) (r # rs))) [0 ..< n]) =
        sum_list (map (\<lambda>i. (if r ! i = v then 1 else 0) + length (filter (\<lambda>r. r ! i = v) rs)) [0 ..< n])"
    by (rule arg_cong [where f = sum_list], rule map_cong) auto
  also have "\<dots> = sum_list (map (\<lambda>i. if r ! i = v then 1 else 0) [0 ..< n]) +
                  sum_list (map (\<lambda>i. length (filter (\<lambda>r. r ! i = v) rs)) [0 ..< n])"
    by (rule sum_list_addf)
  also have "\<dots> = count_list r v + count_list (concat rs) v"
    using count_in_row [of r v] Cons.IH [OF rest] len by simp
  finally show ?case by simp
qed

lemma length_concat_rows:
  "list_all (\<lambda>r. length r = n) rs \<Longrightarrow> length (concat rs) = length rs * n"
  by (induction rs) auto

subsection \<open>Dictionary assignment\<close>

lemma dict_set_keys:
  "map fst (dict_set k v d) = (if k \<in> set (map fst d) then map fst d else map fst d @ [k])"
  by (induction d) force+

lemma dict_set_map_of: "map_of (dict_set k v d) = (map_of d)(k \<mapsto> v)"
  by (induction d) (auto simp: fun_eq_iff)

lemma dict_set_values:
  "list_all (\<lambda>e. Q (snd e)) d \<Longrightarrow> Q v \<Longrightarrow> list_all (\<lambda>e. Q (snd e)) (dict_set k v d)"
  by (induction d) auto

lemma fold_dict_set_keys:
  "distinct (map fst acc) \<Longrightarrow>
   distinct (map fst (fold (\<lambda>c. dict_set c (f c)) cols acc)) \<and>
   set (map fst (fold (\<lambda>c. dict_set c (f c)) cols acc)) = set (map fst acc) \<union> set cols"
proof (induction cols arbitrary: acc)
  case Nil
  then show ?case by simp
next
  case (Cons c cols)
  from Cons.prems have "distinct (map fst (dict_set c (f c) acc))"
    by (simp add: dict_set_keys)
  from Cons.IH [OF this] show ?case
    by (auto simp: dict_set_keys)
qed

lemma fold_dict_set_map_of:
  "map_of (fold (\<lambda>c. dict_set c (f c)) cols acc) k =
   (if k \<in> set cols then Some (f k) else map_of acc k)"
  by (induction cols arbitrary: acc rule: rev_induct) (auto simp: dict_set_map_of)

lemma fold_dict_set_values:
  "list_all (\<lambda>e. Q (snd e)) acc \<Longrightarrow> \<forall>c \<in> set cols. Q (f c) \<Longrightarrow>
   list_all (\<lambda>e. Q (snd e)) (fold (\<lambda>c. dict_set c (f c)) cols acc)"
  by (induction cols arbitrary: acc) (auto simp: dict_set_values)

subsection \<open>Smallest class and empty columns\<close>

lemma min_size_nonnegative:
  assumes "list_all (\<lambda>p. 1 \<le> snd p) (ec_counts :: ('k \<times> int) list)"
  shows "0 \<le> (case map snd ec_counts of [] \<Rightarrow> 0 | s # rest \<Rightarrow> py_min s rest)"
proof (cases ec_counts)
  case Nil
  then show ?thesis by simp
next
  case (Cons p ps)
  have "py_min (snd p) (map snd ps) \<in> set (snd p # map snd ps)"
    unfolding py_min_Min by (rule Min_in) auto
  with assms Cons have "1 \<le> py_min (snd p) (map snd ps)"
    by (auto simp: list_all_iff)
  with Cons show ?thesis by simp
qed

lemma column_loss_no_records:
  "column_loss 0 [] =
     Inr \<lparr> distinct_values = 0, asterisk_percentage = 0, generalized_percentage = 0,
           total_loss_percentage = 0 \<rparr>"
  by (simp add: column_loss_returns nunique_def)

subsection \<open>What the class builder groups by\<close>

text \<open>
  Two records fall into one class exactly when their composite keys are equal; the keys of
  two tuples of equal length coincide with the tuples' texts when no text holds a separator;
  and the class statistics are those of the multiset of class sizes, with one class for each
  distinct composite key.
\<close>

lemma getitem_list_present:
  "set qis \<subseteq> set (columns df) \<Longrightarrow>
   getitem_list df qis = Inr (map (\<lambda>r. map (\<lambda>q. r ! the (get_loc q (columns df))) qis) (rows df))"
  by (simp add: getitem_list_def get_locs_present comp_def)

lemma group_loop_same_class:
  assumes "i < length ks" and "j < length ks"
  shows "(\<exists>ms \<in> set (map snd (group_loop 0 ks [])). i \<in> set ms \<and> j \<in> set ms) \<longleftrightarrow> ks ! i = ks ! j"
proof
  assume "\<exists>ms \<in> set (map snd (group_loop 0 ks [])). i \<in> set ms \<and> j \<in> set ms"
  then obtain k ms where in_g: "(k, ms) \<in> set (group_loop 0 ks [])" and "i \<in> set ms" "j \<in> set ms"
    by auto
  with group_loop_members [OF in_g] show "ks ! i = ks ! j"
    by simp
next
  assume eq: "ks ! i = ks ! j"
  let ?k = "ks ! i"
  let ?ms = "filter (\<lambda>n. ks ! n = ?k) [0 ..< length ks]"
  from assms(1) have "?k \<in> set ks" by simp
  then have "map_of (group_loop 0 ks []) ?k = Some ?ms"
    by (simp add: group_loop_map_of)
  then have "(?k, ?ms) \<in> set (group_loop 0 ks [])"
    by (rule map_of_SomeD)
  moreover from assms eq have "i \<in> set ?ms" "j \<in> set ?ms"
    by simp_all
  ultimately show "\<exists>ms \<in> set (map snd (group_loop 0 ks [])). i \<in> set ms \<and> j \<in> set ms"
    by force
qed

lemma same_class_iff_same_key:
  assumes "set qis \<subseteq> set (columns df)" and "i < length (rows df)" and "j < length (rows df)"
  shows "\<exists>sub ec_counts ec_groups.
           getitem_list df qis = Inr sub \<and>
           compute_equivalence_classes df qis = Inr (ec_counts, ec_groups) \<and>
           ((\<exists>ms \<in> set (map snd ec_groups). i \<in> set ms \<and> j \<in> set ms) \<longleftrightarrow>
              ec_key (sub ! i) = ec_key (sub ! j))"
proof -
  define sub where "sub = map (\<lambda>r. map (\<lambda>q. r ! the (get_loc q (columns df))) qis) (rows df)"
  have s: "getitem_list df qis = Inr sub"
    unfolding sub_def by (rule getitem_list_present [OF assms(1)])
  have c: "compute_equivalence_classes df qis =
      Inr (Counter (map ec_key sub), group_loop 0 (map ec_key sub) [])"
    by (simp add: compute_equivalence_classes_def s Let_def)
  have n: "length (map ec_key sub) = length (rows df)"
    by (simp add: sub_def)
  from assms(2,3) have "(\<exists>ms \<in> set (map snd (group_loop 0 (map ec_key sub) [])). i \<in> set ms \<and> j \<in> set ms)
      \<longleftrightarrow> ec_key (sub ! i) = ec_key (sub ! j)"
    using group_loop_same_class [of i "map ec_key sub" j] n by (simp add: sub_def)
  with s c show ?thesis
    by blast
qed

lemma split_at_separator:
  "c \<notin> set x \<Longrightarrow> c \<notin> set y \<Longrightarrow> x @ c # r = y @ c # r' \<longleftrightarrow> x = y \<and> r = r'"
proof (induction x arbitrary: y)
  case Nil
  then show ?case by (cases y) auto
next
  case (Cons a x)
  then show ?case by (cases y) auto
qed

lemma join_separator_free:
  assumes "length xs = length ys"
    and "\<forall>x \<in> set xs \<union> set ys. c \<notin> set x"
  shows "join [c] xs = join [c] ys \<longleftrightarrow> xs = ys"
  using assms
proof (induction xs ys rule: list_induct2)
  case Nil
  then show ?case by simp
next
  case (Cons x xs y ys)
  show ?case
  proof (cases xs)
    case Nil
    with Cons.hyps have "ys = []" by simp
    with Nil show ?thesis by simp
  next
    case (Cons x' xs')
    with Cons.hyps obtain y' ys' where ys: "ys = y' # ys'"
      by (cases ys) auto
    from Cons.prems have "c \<notin> set x" "c \<notin> set y"
      by auto
    then have "x @ c # join [c] xs = y @ c # join [c] ys \<longleftrightarrow> x = y \<and> join [c] xs = join [c] ys"
      by (rule split_at_separator)
    moreover from Cons.prems have "join [c] xs = join [c] ys \<longleftrightarrow> xs = ys"
      by (intro Cons.IH) auto
    ultimately show ?thesis
      using Cons ys by simp
  qed
qed

lemma ec_key_separator_free:
  assumes "length r = length r'"
    and "\<forall>v \<in> set r \<union> set r'. CHR ''_'' \<notin> set (py_str v)"
  shows "ec_key r = ec_key r' \<longleftrightarrow> map py_str r = map py_str r'"
  unfolding ec_key_def using assms by (intro join_separator_free) auto

lemma Counter_keys:
  "distinct (map fst (Counter ks)) \<and> set (map fst (Counter ks)) = set ks"
proof -
  have "map fst (Counter ks) = map fst (map (\<lambda>p. (fst p, int (length (snd p)))) (group_loop 0 ks []))"
    by (simp only: group_loop_Counter)
  also have "\<dots> = map fst (group_loop 0 ks [])"
    by (simp add: comp_def)
  finally show ?thesis
    using group_loop_keys [of ks] by simp
qed

lemma Counter_length: "length (Counter ks) = card (set ks)"
proof -
  have "card (set ks) = card (set (map fst (Counter ks)))"
    by (simp only: Counter_keys)
  also have "\<dots> = length (map fst (Counter ks))"
    by (rule distinct_card) (simp only: Counter_keys)
  finally show ?thesis by simp
qed

lemma class_statistics_of_dataset:
  assumes "set qis \<subseteq> set (columns df)" and "rows df \<noteq> []"
  shows "\<exists>sub ec_counts ec_groups m.
           getitem_list df qis = Inr sub \<and>
           compute_equivalence_classes df qis = Inr (ec_counts, ec_groups) \<and>
           calculate_equivalence_class_metrics ec_counts (int (length (rows df))) = Inr m \<and>
           num_equivalence_classes m = card (set (map ec_key sub)) \<and>
           min_ec_size m = Min (set (map snd ec_counts)) \<and>
           max_ec_size m = Max (set (map snd ec_counts)) \<and>
           avg_ec_size m = of_nat (length (rows df)) / of_nat (num_equivalence_classes m) \<and>
           unique_records m = length (filter (\<lambda>size. size = 1) (map snd ec_counts)) \<and>
           unique_records_percentage m =
             of_nat (unique_records m) / of_nat (length (rows df)) * 100"
proof -
  define sub where "sub = map (\<lambda>r. map (\<lambda>q. r ! the (get_loc q (columns df))) qis) (rows df)"
  define c where "c = Counter (map ec_key sub)"
  have s: "getitem_list df qis = Inr sub"
    unfolding sub_def by (rule getitem_list_present [OF assms(1)])
  have run: "compute_equivalence_classes df qis = Inr (c, group_loop 0 (map ec_key sub) [])"
    by (simp add: compute_equivalence_classes_def s c_def Let_def)
  have n: "length (map ec_key sub) = length (rows df)"
    by (simp add: sub_def)
  have len: "length c = card (set (map ec_key sub))"
    unfolding c_def by (rule Counter_length)
  from assms(2) have "set (map ec_key sub) \<noteq> {}"
    by (simp add: sub_def)
  with len have "length c \<noteq> 0"
    by simp
  then obtain p ps where cons: "c = p # ps"
    by (cases c) auto
  have total: "sum_list (map snd c) = int (length (rows df))"
    using n by (simp add: c_def Counter_def fold_counter_add_sum)
  from assms(2) have pos: "0 < length (rows df)"
    by simp
  let ?m = "\<lparr> num_equivalence_classes = length c,
              min_ec_size = Min (set (map snd c)),
              max_ec_size = Max (set (map snd c)),
              avg_ec_size = of_nat (length (rows df)) / of_nat (length c),
              unique_records = length (filter (\<lambda>size. size = 1) (map snd c)),
              unique_records_percentage =
                of_nat (length (filter (\<lambda>size. size = 1) (map snd c)))
                  / of_nat (length (rows df)) * 100,
              ec_size_distribution = Counter (map snd c) \<rparr>"
  have avg: "rat_of_int (sum_list (map snd c)) = of_nat (length (rows df))"
    by (simp only: total of_int_of_nat_eq)
  have "calculate_equivalence_class_metrics c (int (length (rows df))) = Inr ?m"
    using pos avg
    by (simp add: calculate_equivalence_class_metrics_def Let_def truediv_def cons
          py_min_Min py_max_Max)
  with s run len show ?thesis
    by (intro exI [of _ sub] exI [of _ c] exI [of _ "group_loop 0 (map ec_key sub) []"]
          exI [of _ ?m]) simp
qed

section \<open>The claims\<close>

text \<open>
  Claim C1. For every dataset and every threshold \<open>k\<close> the evaluation returns a report, and in
  it \<open>satisfies_k_anonymity\<close> is true exactly when \<open>min_ec_size\<close> is at least \<open>k\<close>, where
  \<open>min_ec_size\<close> is the one the metric engine computed from the equivalence classes of the
  dataset under its quasi-identifiers: the smallest class size, or 0 when there is no record.
\<close>

theorem verdict_iff_min_class_size:
  "\<exists>r. evaluate_k_anonymity df k = Inr r \<and>
       k_value r = k \<and>
       (satisfies_k_anonymity r \<longleftrightarrow> k \<le> of_int (min_ec_size (equivalence_class_metrics r))) \<and>
       (\<exists>ec. compute_equivalence_classes df (quasi_identifiers r) = Inr ec \<and>
             calculate_equivalence_class_metrics (fst ec) (int (length (rows df))) =
               Inr (equivalence_class_metrics r) \<and>
             min_ec_size (equivalence_class_metrics r) =
               (if rows df = [] then 0 else Min (set (map snd (fst ec)))))"
proof -
  obtain qis where q: "identify_quasi_identifiers df = Inr qis" "set qis \<subseteq> set (columns df)"
    using identify_quasi_identifiers_subset by blast
  define keys where
    "keys = map (\<lambda>r. ec_key (map (\<lambda>q. r ! the (get_loc q (columns df))) qis)) (rows df)"
  have classes: "compute_equivalence_classes df qis = Inr (Counter keys, group_loop 0 keys [])"
    unfolding keys_def by (rule compute_equivalence_classes_present [OF q(2)])
  obtain rm where rm: "calculate_reidentification_risks (Counter keys) = Inr rm"
    using calculate_reidentification_risks_Counter by blast
  obtain ecm where ecm: "calculate_equivalence_class_metrics (Counter keys) (int (length (rows df))) = Inr ecm"
    and least: "min_ec_size ecm =
      (case map snd (Counter keys) of [] \<Rightarrow> 0 | s # rest \<Rightarrow> py_min s rest)"
    using calculate_equivalence_class_metrics_returns [OF of_nat_0_le_iff] by blast
  have minimum: "min_ec_size ecm = (if rows df = [] then 0 else Min (set (map snd (Counter keys))))"
  proof (cases "rows df = []")
    case True
    then have "Counter keys = []"
      by (simp add: keys_def Counter_def)
    with least True show ?thesis by simp
  next
    case False
    then have "set keys \<noteq> {}"
      by (simp add: keys_def)
    then have "length (Counter keys) \<noteq> 0"
      by (simp add: Counter_length)
    then obtain p ps where "Counter keys = p # ps"
      by (cases "Counter keys") auto
    with least False show ?thesis
      by (simp add: py_min_Min)
  qed
  obtain m where m: "calculate_information_loss df qis = Inr m"
    using calculate_information_loss_present [OF q(2)] by blast
  have "evaluate_k_anonymity df k =
      Inr \<lparr> k_value = k, quasi_identifiers = qis, num_records = length (rows df),
            satisfies_k_anonymity = (k \<le> of_int (min_ec_size ecm)),
            risks_report = rm, equivalence_class_metrics = ecm, information_loss = m,
            suppression_rate = projr (calculate_suppression_rate df),
            discernibility =
              discernibility_metric (group_loop 0 keys []) (int (length (rows df))) \<rparr>"
    by (simp add: evaluate_k_anonymity_def q classes rm ecm m calculate_suppression_rate_returns)
  with classes ecm minimum show ?thesis
    by simp
qed

theorem verdict_iff_min_class_size_witness:
  "satisfies_k_anonymity (projr (evaluate_k_anonymity example_five 2)) \<and>
   \<not> satisfies_k_anonymity (projr (evaluate_k_anonymity example_five 3))"
proof -
  have m2: "min_ec_size (equivalence_class_metrics (projr (evaluate_k_anonymity example_five 2))) = 2"
    by code_simp
  have m3: "min_ec_size (equivalence_class_metrics (projr (evaluate_k_anonymity example_five 3))) = 2"
    by code_simp
  obtain r2 where r2: "evaluate_k_anonymity example_five 2 = Inr r2"
    "satisfies_k_anonymity r2 \<longleftrightarrow> 2 \<le> rat_of_int (min_ec_size (equivalence_class_metrics r2))"
    using verdict_iff_min_class_size [of example_five 2] by blast
  obtain r3 where r3: "evaluate_k_anonymity example_five 3 = Inr r3"
    "satisfies_k_anonymity r3 \<longleftrightarrow> 3 \<le> rat_of_int (min_ec_size (equivalence_class_metrics r3))"
    using verdict_iff_min_class_size [of example_five 3] by blast
  from m2 m3 r2 r3 show ?thesis
    by simp
qed

text \<open>
  Claim C2. The equivalence classes partition the records: the class sizes add up to the
  number of records, each size is the length of the class's membership list, the membership
  lists together hold every record index exactly once, and so every record index lies in the
  membership list of exactly one class.
\<close>

theorem equivalence_classes_partition:
  assumes "set qis \<subseteq> set (columns df)"
  shows "\<exists>ec_counts ec_groups.
           compute_equivalence_classes df qis = Inr (ec_counts, ec_groups) \<and>
           sum_list (map snd ec_counts) = int (length (rows df)) \<and>
           map (\<lambda>p. (fst p, int (length (snd p)))) ec_groups = ec_counts \<and>
           mset (concat (map snd ec_groups)) = mset [0 ..< length (rows df)] \<and>
           (\<forall>i < length (rows df). \<exists>!j. j < length ec_groups \<and> i \<in> set (snd (ec_groups ! j)))"
proof -
  define keys where
    "keys = map (\<lambda>r. ec_key (map (\<lambda>q. r ! the (get_loc q (columns df))) qis)) (rows df)"
  have n: "length keys = length (rows df)"
    by (simp add: keys_def)
  have run: "compute_equivalence_classes df qis = Inr (Counter keys, group_loop 0 keys [])"
    unfolding keys_def by (rule compute_equivalence_classes_present [OF assms])
  have total: "sum_list (map snd (Counter keys)) = int (length (rows df))"
    by (simp add: Counter_def fold_counter_add_sum n)
  have part: "mset (concat (map snd (group_loop 0 keys []))) = mset [0 ..< length (rows df)]"
    by (simp add: group_loop_mset n)
  have uniq: "\<forall>i < length (rows df).
      \<exists>!j. j < length (group_loop 0 keys []) \<and> i \<in> set (snd (group_loop 0 keys [] ! j))"
  proof (intro allI impI)
    fix i assume "i < length (rows df)"
    with part have "\<exists>!j. j < length (map snd (group_loop 0 keys [])) \<and>
        i \<in> set (map snd (group_loop 0 keys []) ! j)"
      by (rule partition_unique_class)
    then show "\<exists>!j. j < length (group_loop 0 keys []) \<and> i \<in> set (snd (group_loop 0 keys [] ! j))"
      by (auto simp: nth_map cong: conj_cong)
  qed
  from run total part uniq group_loop_Counter [of keys] show ?thesis
    by blast
qed

theorem equivalence_classes_partition_witness:
  "set [''qi''] \<subseteq> set (columns example_five) \<and>
   sum_list (map snd (fst (projr (compute_equivalence_classes example_five [''qi''])))) = 5 \<and>
   mset (concat (map snd (snd (projr (compute_equivalence_classes example_five [''qi''])))))
     = mset [0 ..< 5]"
proof -
  have h: "set [''qi''] \<subseteq> set (columns example_five)"
    by (simp add: example_five_def)
  have n: "length (rows example_five) = 5"
    by (simp add: example_five_def)
  from equivalence_classes_partition [OF h] n h show ?thesis
    by auto
qed

text \<open>
  Claim C3 at a table whose values contain the separator. The two records of the table have
  different tuples of quasi-identifier values, \<open>(a_b, c)\<close> and \<open>(a, b_c)\<close>, and the class
  builder puts both into the single class of the key \<open>a_b_c\<close>: grouping follows the joined
  text, not the tuple.
\<close>

theorem separator_collision_merges_classes:
  "getitem_list example_collision [''city'', ''zip''] =
     Inr [[Str ''a_b'', Str ''c''], [Str ''a'', Str ''b_c'']] \<and>
   [Str ''a_b'', Str ''c''] \<noteq> [Str ''a'', Str ''b_c''] \<and>
   compute_equivalence_classes example_collision [''city'', ''zip''] =
     Inr ([(''a_b_c'', 2)], [(''a_b_c'', [0, 1])])"
  by code_simp

text \<open>
  Claim C4. On a well-formed table the classifier never raises and returns the labels of
  exactly the columns in which some record's value is not the marker \<^verbatim>\<open>'*'\<close>, in the order
  in which the table lists its columns.
\<close>

theorem identify_quasi_identifiers_correct:
  assumes "wf_dataframe df"
  shows "identify_quasi_identifiers df =
           Inr (map (\<lambda>i. columns df ! i)
                  (filter (\<lambda>i. \<exists>r \<in> set (rows df). r ! i \<noteq> Str ''*'')
                     [0 ..< length (columns df)]))"
proof -
  from assms have d: "distinct (columns df)"
    by (simp add: wf_dataframe_def)
  let ?P = "\<lambda>c. \<exists>r \<in> set (rows df). r ! the (get_loc c (columns df)) \<noteq> Str ''*''"
  have "identify_quasi_identifiers df = Inr (filter ?P (columns df))"
    by (simp add: identify_quasi_identifiers_def identify_loop_filter)
  also have "filter ?P (columns df) =
      map (\<lambda>i. columns df ! i) (filter (\<lambda>i. ?P (columns df ! i)) [0 ..< length (columns df)])"
    by (rule filter_by_position)
  also have "filter (\<lambda>i. ?P (columns df ! i)) [0 ..< length (columns df)] =
      filter (\<lambda>i. \<exists>r \<in> set (rows df). r ! i \<noteq> Str ''*'') [0 ..< length (columns df)]"
    by (rule filter_cong) (auto simp: get_loc_nth [OF d])
  finally show ?thesis .
qed

theorem identify_quasi_identifiers_correct_witness:
  "wf_dataframe example_average \<and>
   identify_quasi_identifiers example_average = Inr [''average'', ''zip''] \<and>
   wf_dataframe example_five \<and>
   identify_quasi_identifiers example_five = Inr [''qi'']"
proof -
  have h1: "wf_dataframe example_average" by code_simp
  have h2: "wf_dataframe example_five" by code_simp
  have e1: "map (\<lambda>i. columns example_average ! i)
                  (filter (\<lambda>i. \<exists>r \<in> set (rows example_average). r ! i \<noteq> Str ''*'')
                     [0 ..< length (columns example_average)]) = [''average'', ''zip'']"
    by code_simp
  have e2: "map (\<lambda>i. columns example_five ! i)
                  (filter (\<lambda>i. \<exists>r \<in> set (rows example_five). r ! i \<noteq> Str ''*'')
                     [0 ..< length (columns example_five)]) = [''qi'']"
    by code_simp
  from identify_quasi_identifiers_correct [OF h1] identify_quasi_identifiers_correct [OF h2]
    h1 h2 e1 e2 show ?thesis
    by simp
qed

text \<open>
  Claim C5. For a non-empty collection of equivalence classes (every size at least one), the
  risk of a class is one divided by its size and lies in \<open>(0, 1]\<close>, \<open>max_risk\<close> is the largest
  of the risks, and \<open>avg_risk\<close> is their sum divided by the number of classes.
\<close>

theorem reidentification_risks_correct:
  assumes "ec_counts \<noteq> []" and "list_all (\<lambda>p. 1 \<le> snd p) ec_counts"
  shows "\<exists>rm. calculate_reidentification_risks ec_counts = Inr rm \<and>
           risks rm = map (\<lambda>p. 1 / of_int (snd p)) ec_counts \<and>
           list_all (\<lambda>x. 0 < x \<and> x \<le> 1) (risks rm) \<and>
           max_risk rm = Max (set (risks rm)) \<and>
           avg_risk rm = sum_list (risks rm) / of_nat (length (risks rm))"
proof -
  from assms(2) have nz: "0 \<notin> set (map snd ec_counts)"
    by (auto simp: list_all_iff)
  define rs :: "rat list" where "rs = map (\<lambda>p. 1 / of_int (snd p)) ec_counts"
  have loop: "risks_loop (map snd ec_counts) [] = Inr rs"
    by (simp add: risks_loop_map [OF nz] rs_def comp_def)
  from assms(1) obtain r rest where rs: "rs = r # rest"
    by (cases ec_counts) (auto simp: rs_def)
  have bounds: "list_all (\<lambda>x. 0 < x \<and> x \<le> 1) rs"
    using assms(2) unfolding rs_def list_all_iff
  proof (intro ballI)
    fix x assume a: "\<forall>p \<in> set ec_counts. 1 \<le> snd p" and "x \<in> set (map (\<lambda>p. 1 / rat_of_int (snd p)) ec_counts)"
    then obtain p where "p \<in> set ec_counts" and x: "x = 1 / of_int (snd p)" by auto
    with a have "1 \<le> snd p" by simp
    then have "(1::rat) \<le> of_int (snd p)" by simp
    then show "0 < x \<and> x \<le> 1" unfolding x by simp
  qed
  have "calculate_reidentification_risks ec_counts =
          Inr \<lparr> max_risk = Max (set rs), avg_risk = sum_list rs / of_nat (length rs), risks = rs \<rparr>"
    by (simp add: calculate_reidentification_risks_def loop rs py_max_Max truediv_def)
  with bounds show ?thesis
    by (simp add: rs_def)
qed

theorem reidentification_risks_correct_witness:
  "[(''A'', 2 :: int), (''B'', 3)] \<noteq> [] \<and>
   list_all (\<lambda>p. 1 \<le> snd p) [(''A'', 2 :: int), (''B'', 3)] \<and>
   risks (projr (calculate_reidentification_risks [(''A'', 2), (''B'', 3)])) = [1 / 2, 1 / 3] \<and>
   max_risk (projr (calculate_reidentification_risks [(''A'', 2), (''B'', 3)])) = 1 / 2 \<and>
   avg_risk (projr (calculate_reidentification_risks [(''A'', 2), (''B'', 3)])) = 5 / 12"
proof -
  have h1: "[(''A'', 2 :: int), (''B'', 3)] \<noteq> []" by simp
  have h2: "list_all (\<lambda>p. 1 \<le> snd p) [(''A'', 2 :: int), (''B'', 3)]" by simp
  from reidentification_risks_correct [OF h1 h2] show ?thesis
    by auto
qed

text \<open>
  Claim C6 at a table whose values contain the separator. Both columns are quasi-identifiers
  and the two records have two distinct tuples of quasi-identifier values, \<open>(a_b, c)\<close> and
  \<open>(a, b_c)\<close>, yet the evaluation returns a report with \<open>num_equivalence_classes = 1\<close> and
  judges 2-anonymity satisfied.
\<close>

theorem separator_collision_undercounts_classes:
  "identify_quasi_identifiers example_collision = Inr [''city'', ''zip''] \<and>
   getitem_list example_collision [''city'', ''zip''] =
     Inr [[Str ''a_b'', Str ''c''], [Str ''a'', Str ''b_c'']] \<and>
   card (set [[Str ''a_b'', Str ''c''], [Str ''a'', Str ''b_c'']]) = 2 \<and>
   \<not> isl (evaluate_k_anonymity example_collision 2) \<and>
   num_equivalence_classes
     (equivalence_class_metrics (projr (evaluate_k_anonymity example_collision 2))) = 1 \<and>
   satisfies_k_anonymity (projr (evaluate_k_anonymity example_collision 2))"
  by code_simp

text \<open>
  Claim C7, as amended. For a well-formed table with at least one cell, the suppression rate
  is a percentage: one hundred times the number of cells of the whole table equal to the
  marker \<^verbatim>\<open>'*'\<close>, divided by the number of cells. It is not the bare ratio, as the table of
  a single suppressed cell shows (rate 100, ratio 1).
\<close>

theorem suppression_rate_percentage:
  assumes "wf_dataframe df" and "concat (rows df) \<noteq> []"
  shows "calculate_suppression_rate df =
           Inr (of_nat (count_list (concat (rows df)) (Str ''*''))
                  / of_nat (length (concat (rows df))) * 100)"
proof -
  from assms(1) have shape: "list_all (\<lambda>r. length r = length (columns df)) (rows df)"
    by (simp add: wf_dataframe_def)
  have cells: "length (concat (rows df)) = length (rows df) * length (columns df)"
    using shape by (rule length_concat_rows)
  with assms(2) have pos: "length (rows df) * length (columns df) > 0"
    by (metis length_greater_0_conv)
  have "suppressed_cells df = count_list (concat (rows df)) (Str ''*'')"
    unfolding suppressed_cells_def using shape by (rule count_by_columns)
  with pos cells show ?thesis
    by (simp add: calculate_suppression_rate_returns)
qed

theorem suppression_rate_percentage_witness:
  "wf_dataframe example_five \<and> concat (rows example_five) \<noteq> [] \<and>
   calculate_suppression_rate example_five = Inr 50"
proof -
  have h1: "wf_dataframe example_five" by code_simp
  have h2: "concat (rows example_five) \<noteq> []" by code_simp
  have "of_nat (count_list (concat (rows example_five)) (Str ''*''))
          / of_nat (length (concat (rows example_five))) * 100 = (50 :: rat)"
    by code_simp
  with suppression_rate_percentage [OF h1 h2] h1 h2 show ?thesis
    by simp
qed

text \<open>
  Claim C7 as it is stated fails: on the table of one suppressed cell the suppression rate is
  not the ratio of suppressed cells to cells.
\<close>

theorem suppression_rate_not_ratio:
  "calculate_suppression_rate example_cell \<noteq>
     Inr (of_nat (count_list (concat (rows example_cell)) (Str ''*''))
            / of_nat (length (concat (rows example_cell))))"
  by code_simp

text \<open>
  Claim C8, as amended. The evaluation does not validate the threshold: for every table and
  every number \<open>k\<close>, positive or not, integral or not, it returns a report that records \<open>k\<close>;
  for \<open>k \<le> 0\<close> the verdict is always that k-anonymity is satisfied, and otherwise it is the
  comparison of \<open>k\<close> with the smallest class size.
\<close>

theorem threshold_not_validated:
  "\<exists>r. evaluate_k_anonymity df k = Inr r \<and> k_value r = k \<and>
       (if k \<le> 0 then satisfies_k_anonymity r
        else satisfies_k_anonymity r = (k \<le> of_int (min_ec_size (equivalence_class_metrics r))))"
proof -
  obtain qis where q: "identify_quasi_identifiers df = Inr qis" "set qis \<subseteq> set (columns df)"
    using identify_quasi_identifiers_subset by blast
  let ?c = "Counter (map (\<lambda>r. ec_key (map (\<lambda>q. r ! the (get_loc q (columns df))) qis)) (rows df))"
  obtain rm where rm: "calculate_reidentification_risks ?c = Inr rm"
    using calculate_reidentification_risks_Counter by blast
  obtain ecm where ecm: "calculate_equivalence_class_metrics ?c (int (length (rows df))) = Inr ecm"
    and m: "min_ec_size ecm = (case map snd ?c of [] \<Rightarrow> 0 | s # rest \<Rightarrow> py_min s rest)"
    using calculate_equivalence_class_metrics_returns [OF of_nat_0_le_iff] by blast
  have "0 \<le> min_ec_size ecm"
    unfolding m by (rule min_size_nonnegative [OF Counter_positive])
  then have nonneg: "(0::rat) \<le> of_int (min_ec_size ecm)"
    by simp
  obtain il where il: "calculate_information_loss df qis = Inr il"
    using calculate_information_loss_present [OF q(2)] by blast
  show ?thesis
    using nonneg
    by (simp add: evaluate_k_anonymity_def q compute_equivalence_classes_present [OF q(2)]
          rm ecm il calculate_suppression_rate_returns)
qed

theorem threshold_not_validated_witness:
  "satisfies_k_anonymity (projr (evaluate_k_anonymity example_five (- 1))) \<and>
   k_value (projr (evaluate_k_anonymity example_five (- 1))) = - 1 \<and>
   \<not> satisfies_k_anonymity (projr (evaluate_k_anonymity example_five (5 / 2)))"
proof -
  have m: "min_ec_size (equivalence_class_metrics (projr (evaluate_k_anonymity example_five (5 / 2)))) = 2"
    by code_simp
  from threshold_not_validated [of example_five "- 1"] threshold_not_validated [of example_five "5 / 2"] m
  show ?thesis
    by auto
qed

text \<open>
  Claim C8 as it is stated fails: with the thresholds 0, -3 and 5/2 the evaluation of the
  five-record table returns a report instead of failing, and for 0 the verdict is positive.
\<close>

theorem nonpositive_threshold_accepted:
  "\<not> isl (evaluate_k_anonymity example_five 0) \<and>
   satisfies_k_anonymity (projr (evaluate_k_anonymity example_five 0)) \<and>
   \<not> isl (evaluate_k_anonymity example_five (- 3)) \<and>
   \<not> isl (evaluate_k_anonymity example_five (5 / 2))"
  by code_simp

text \<open>
  Claim C9. On a table without records no metric function raises, and each returns zeros and
  empty collections: no quasi-identifier, no equivalence class, risks 0 with an empty risk
  list, class statistics 0, every information-loss entry 0 (for any choice of columns),
  suppression rate 0, and the whole evaluation returns the report made of these values.
\<close>

theorem zero_records_defaults:
  assumes "rows df = []" and "set qis \<subseteq> set (columns df)"
  shows "identify_quasi_identifiers df = Inr [] \<and>
         compute_equivalence_classes df qis = Inr ([], []) \<and>
         calculate_reidentification_risks ([] :: (string \<times> int) list) =
           Inr \<lparr> max_risk = 0, avg_risk = 0, risks = [] \<rparr> \<and>
         calculate_equivalence_class_metrics ([] :: (string \<times> int) list) 0 =
           Inr \<lparr> num_equivalence_classes = 0, min_ec_size = 0, max_ec_size = 0, avg_ec_size = 0,
                 unique_records = 0, unique_records_percentage = 0, ec_size_distribution = [] \<rparr> \<and>
         (\<exists>report. calculate_information_loss df qis = Inr report \<and>
            list_all (\<lambda>e. snd e = AverageLoss 0 \<or>
                          snd e = ColumnLoss \<lparr> distinct_values = 0, asterisk_percentage = 0,
                                    generalized_percentage = 0, total_loss_percentage = 0 \<rparr>) report) \<and>
         calculate_suppression_rate df = Inr 0 \<and>
         evaluate_k_anonymity df k =
           Inr \<lparr> k_value = k, quasi_identifiers = [], num_records = 0,
                 satisfies_k_anonymity = (k \<le> 0),
                 risks_report = \<lparr> max_risk = 0, avg_risk = 0, risks = [] \<rparr>,
                 equivalence_class_metrics =
                   \<lparr> num_equivalence_classes = 0, min_ec_size = 0, max_ec_size = 0,
                     avg_ec_size = 0, unique_records = 0, unique_records_percentage = 0,
                     ec_size_distribution = [] \<rparr>,
                 information_loss = [(''average'', AverageLoss 0)],
                 suppression_rate = 0,
                 discernibility = 0 \<rparr>"
proof -
  let ?zero = "\<lparr> distinct_values = 0, asterisk_percentage = 0, generalized_percentage = 0,
                 total_loss_percentage = 0 \<rparr>"
  have ident: "identify_quasi_identifiers df = Inr []"
    by (simp add: identify_quasi_identifiers_def identify_loop_filter assms(1))
  have classes: "compute_equivalence_classes df qis' = Inr ([], [])"
    if "set qis' \<subseteq> set (columns df)" for qis'
    by (simp add: compute_equivalence_classes_present [OF that] assms(1) Counter_def)
  have risk: "calculate_reidentification_risks ([] :: (string \<times> int) list) =
      Inr \<lparr> max_risk = 0, avg_risk = 0, risks = [] \<rparr>"
    by (simp add: calculate_reidentification_risks_def)
  have stats: "calculate_equivalence_class_metrics ([] :: (string \<times> int) list) 0 =
      Inr \<lparr> num_equivalence_classes = 0, min_ec_size = 0, max_ec_size = 0, avg_ec_size = 0,
            unique_records = 0, unique_records_percentage = 0, ec_size_distribution = [] \<rparr>"
    by (simp add: calculate_equivalence_class_metrics_def Counter_def)
  let ?f = "\<lambda>c. projr (column_loss (length (rows df))
                 (map (\<lambda>r. r ! the (get_loc c (columns df))) (rows df)))"
  define info_loss where "info_loss = fold (\<lambda>c. dict_set c (?f c)) qis []"
  have loop: "info_loss_loop df qis [] = Inr info_loss"
    unfolding info_loss_def by (rule info_loss_loop_present [OF assms(2)])
  have zeros: "list_all (\<lambda>e. snd e = ?zero) info_loss"
    unfolding info_loss_def
    by (rule fold_dict_set_values) (simp_all add: assms(1) column_loss_no_records)
  then have avg: "sum_list (map (\<lambda>kv. total_loss_percentage (snd kv)) info_loss) = 0"
    by (induction info_loss) auto
  have shown: "list_all (\<lambda>e. snd e = AverageLoss 0 \<or> snd e = ColumnLoss ?zero)
      (map (\<lambda>kv. (fst kv, ColumnLoss (snd kv))) info_loss)"
    using zeros by (induction info_loss) auto
  have loss: "\<exists>report. calculate_information_loss df qis = Inr report \<and>
      list_all (\<lambda>e. snd e = AverageLoss 0 \<or> snd e = ColumnLoss ?zero) report"
    using dict_set_values [where Q = "\<lambda>v. v = AverageLoss 0 \<or> v = ColumnLoss ?zero", OF shown]
    by (simp add: calculate_information_loss_def loop avg truediv_def)
  have loss0: "calculate_information_loss df [] = Inr [(''average'', AverageLoss 0)]"
    by (simp add: calculate_information_loss_def)
  have rate: "calculate_suppression_rate df = Inr 0"
    by (simp add: calculate_suppression_rate_returns assms(1))
  have whole: "evaluate_k_anonymity df k =
           Inr \<lparr> k_value = k, quasi_identifiers = [], num_records = 0,
                 satisfies_k_anonymity = (k \<le> 0),
                 risks_report = \<lparr> max_risk = 0, avg_risk = 0, risks = [] \<rparr>,
                 equivalence_class_metrics =
                   \<lparr> num_equivalence_classes = 0, min_ec_size = 0, max_ec_size = 0,
                     avg_ec_size = 0, unique_records = 0, unique_records_percentage = 0,
                     ec_size_distribution = [] \<rparr>,
                 information_loss = [(''average'', AverageLoss 0)],
                 suppression_rate = 0,
                 discernibility = 0 \<rparr>"
    by (simp add: evaluate_k_anonymity_def ident classes risk stats loss0 rate assms(1)
          discernibility_metric_def)
  from ident classes [OF assms(2)] risk stats loss rate whole show ?thesis
    by blast
qed

theorem zero_records_defaults_witness:
  "rows example_empty = [] \<and> set [''qi'', ''s''] \<subseteq> set (columns example_empty) \<and>
   compute_equivalence_classes example_empty [''qi'', ''s''] = Inr ([], []) \<and>
   calculate_suppression_rate example_empty = Inr 0 \<and>
   \<not> isl (evaluate_k_anonymity example_empty 2) \<and>
   \<not> satisfies_k_anonymity (projr (evaluate_k_anonymity example_empty 2))"
proof -
  have h1: "rows example_empty = []" by (simp add: example_empty_def)
  have h2: "set [''qi'', ''s''] \<subseteq> set (columns example_empty)" by (simp add: example_empty_def)
  from zero_records_defaults [OF h1 h2, of 2] h1 h2 show ?thesis
    by simp
qed

text \<open>
  Claim C10. When a quasi-identifier column is labelled \<^verbatim>\<open>average\<close>, the loop computes that
  column's entry and stores it under the key \<^verbatim>\<open>'average'\<close>; the returned dictionary has the
  same keys as the one the loop built, holds under \<^verbatim>\<open>'average'\<close> the mean of the columns'
  total loss (that column's included), and holds no per-column entry under that key.
\<close>

theorem average_key_overwrites_column:
  assumes "''average'' \<in> set qis" and "set qis \<subseteq> set (columns df)"
  shows "\<exists>series entry info_loss report.
           getitem df ''average'' = Inr series \<and>
           column_loss (length (rows df)) series = Inr entry \<and>
           info_loss_loop df qis [] = Inr info_loss \<and>
           map_of info_loss ''average'' = Some entry \<and>
           calculate_information_loss df qis = Inr report \<and>
           map fst report = map fst info_loss \<and>
           distinct (map fst report) \<and>
           map_of report ''average'' =
             Some (AverageLoss (sum_list (map (\<lambda>kv. total_loss_percentage (snd kv)) info_loss)
                                  / of_nat (length info_loss))) \<and>
           (\<forall>entry. (''average'', ColumnLoss entry) \<notin> set report)"
proof -
  let ?f = "\<lambda>c. projr (column_loss (length (rows df))
                 (map (\<lambda>r. r ! the (get_loc c (columns df))) (rows df)))"
  define info_loss where "info_loss = fold (\<lambda>c. dict_set c (?f c)) qis []"
  define avg where
    "avg = sum_list (map (\<lambda>kv. total_loss_percentage (snd kv)) info_loss) / of_nat (length info_loss)"
  define report where
    "report = dict_set ''average'' (AverageLoss avg) (map (\<lambda>kv. (fst kv, ColumnLoss (snd kv))) info_loss)"
  have loop: "info_loss_loop df qis [] = Inr info_loss"
    unfolding info_loss_def by (rule info_loss_loop_present [OF assms(2)])
  have keys: "distinct (map fst info_loss)" "set (map fst info_loss) = set qis"
    using fold_dict_set_keys [of "[]" ?f qis] by (simp_all add: info_loss_def)
  with assms(1) have present: "''average'' \<in> set (map fst info_loss)"
    by simp
  then have nonempty: "info_loss \<noteq> []"
    by auto
  from assms have "''average'' \<in> set (columns df)"
    by auto
  then have series: "getitem df ''average'' =
      Inr (map (\<lambda>r. r ! the (get_loc ''average'' (columns df))) (rows df))"
    by (simp add: getitem_present)
  obtain e where computed: "column_loss (length (rows df))
      (map (\<lambda>r. r ! the (get_loc ''average'' (columns df))) (rows df)) = Inr e"
    using column_loss_returns by blast
  have entry: "map_of info_loss ''average'' = Some e"
    using assms(1) by (simp add: info_loss_def fold_dict_set_map_of computed)
  have run: "calculate_information_loss df qis = Inr report"
    using nonempty
    by (simp add: calculate_information_loss_def loop truediv_def report_def avg_def)
  have rkeys: "map fst report = map fst info_loss"
    using present by (simp add: report_def dict_set_keys comp_def)
  have rdist: "distinct (map fst report)"
    using keys(1) rkeys by simp
  have rval: "map_of report ''average'' = Some (AverageLoss avg)"
    by (simp add: report_def dict_set_map_of)
  have gone: "\<forall>entry. (''average'', ColumnLoss entry) \<notin> set report"
  proof (intro allI notI)
    fix entry assume "(''average'', ColumnLoss entry) \<in> set report"
    with rdist have "map_of report ''average'' = Some (ColumnLoss entry)"
      by simp
    with rval show False by simp
  qed
  from series computed loop entry run rkeys rdist rval gone show ?thesis
    unfolding avg_def by blast
qed

theorem average_key_overwrites_column_witness:
  "''average'' \<in> set [''average'', ''zip''] \<and>
   set [''average'', ''zip''] \<subseteq> set (columns example_average) \<and>
   map_of (projr (info_loss_loop example_average [''average'', ''zip''] [])) ''average'' =
     Some \<lparr> distinct_values = 2, asterisk_percentage = 50, generalized_percentage = 0,
            total_loss_percentage = 50 \<rparr> \<and>
   map_of (projr (calculate_information_loss example_average [''average'', ''zip''])) ''average''
     = Some (AverageLoss 50)"
proof -
  have h1: "''average'' \<in> set [''average'', ''zip'']" by simp
  have h2: "set [''average'', ''zip''] \<subseteq> set (columns example_average)" by code_simp
  have e1: "column_loss (length (rows example_average)) series =
            Inr \<lparr> distinct_values = 2, asterisk_percentage = 50, generalized_percentage = 0,
                  total_loss_percentage = 50 \<rparr>"
    if "getitem example_average ''average'' = Inr series" for series
  proof -
    have "getitem example_average ''average'' = Inr [Str ''*'', Str ''x'']"
      by code_simp
    with that have "series = [Str ''*'', Str ''x'']"
      by simp
    then show ?thesis
      by (simp only:) code_simp
  qed
  have e2: "sum_list (map (\<lambda>kv. total_loss_percentage (snd kv))
                (projr (info_loss_loop example_average [''average'', ''zip''] [])))
              / of_nat (length (projr (info_loss_loop example_average [''average'', ''zip''] [])))
            = 50"
    by code_simp
  from average_key_overwrites_column [OF h1 h2] obtain series entry info_loss report where
    "getitem example_average ''average'' = Inr series"
    "column_loss (length (rows example_average)) series = Inr entry"
    "info_loss_loop example_average [''average'', ''zip''] [] = Inr info_loss"
    "map_of info_loss ''average'' = Some entry"
    "calculate_information_loss example_average [''average'', ''zip''] = Inr report"
    "map_of report ''average'' =
       Some (AverageLoss (sum_list (map (\<lambda>kv. total_loss_percentage (snd kv)) info_loss)
                                  / of_nat (length info_loss)))"
    by blast
  with h1 h2 e1 e2 show ?thesis
    by simp
qed

end
